theory Spec2Isabelle
  imports Main
begin

section \<open>Text\<close>

text \<open>
  The script is \<^verbatim>\<open>find-unused-steps.mjs\<close>. A JavaScript string, the output of
  a shell command and the content of a file are all modelled as a \<^typ>\<open>string\<close>, a
  list of \<^typ>\<open>char\<close>. A \<^typ>\<open>char\<close> stands for a UTF-16 code unit below 256; on
  ASCII text the code units the script sees and the bytes the shell tools see are the
  same. The line terminators U+2028 and U+2029 of JavaScript lie outside this range.
\<close>

abbreviation BACKSLASH :: char where "BACKSLASH \<equiv> CHR 0x5C"
abbreviation DQUOTE :: char where "DQUOTE \<equiv> CHR 0x22"
abbreviation NEWLINE :: char where "NEWLINE \<equiv> CHR 0x0A"
abbreviation CRETURN :: char where "CRETURN \<equiv> CHR 0x0D"

definition isLineTerminator :: "char \<Rightarrow> bool" where
  "isLineTerminator c = (c = NEWLINE \<or> c = CRETURN)"

section \<open>The pattern of a step name\<close>

text \<open>
  The name is rewritten by \<^verbatim>\<open>replaceAll\<close> with a global regular expression: a
  less-than sign, a lazy run of any characters, a greater-than sign. The scan goes from
  left to right. At a less-than sign the lazy run takes the shortest sequence of
  characters other than line terminators that is followed by a greater-than sign; the
  match is replaced and the scan goes on after it. Where no greater-than sign follows
  on the same line, the less-than sign is kept as it is. The replacement string is the
  two characters \<^verbatim>\<open>.+\<close> (the backslashes of the literal escape nothing).

  \<open>lazy_until e cs\<close> is the lazy run and the final character \<open>e\<close>, read from
  the text \<open>cs\<close> after the opening character: the body of the match and the text
  after it, or \<open>None\<close> when a line terminator or the end of the text comes first.
\<close>

fun lazy_until :: "char \<Rightarrow> string \<Rightarrow> (string \<times> string) option" where
  "lazy_until e [] = None"
| "lazy_until e (c # cs) =
     (if c = e then Some ([], cs)
      else if isLineTerminator c then None
      else (case lazy_until e cs of
              None \<Rightarrow> None
            | Some (body, rest) \<Rightarrow> Some (c # body, rest)))"

datatype piece = Lit char | Placeholder string

lemma lazy_until_shorter [termination_simp]:
  "lazy_until e cs = Some (body, rest) \<Longrightarrow> length rest < Suc (length cs)"
  by (induction cs arbitrary: body rest) (auto split: if_splits option.splits)

fun scan :: "string \<Rightarrow> piece list" where
  "scan [] = []"
| "scan (c # cs) =
     (if c = CHR ''<'' then
        (case lazy_until (CHR ''>'') cs of
           Some (body, rest) \<Rightarrow> Placeholder (c # body @ ''>'') # scan rest
         | None \<Rightarrow> Lit c # scan cs)
      else Lit c # scan cs)"

fun replacePiece :: "string \<Rightarrow> piece \<Rightarrow> string" where
  "replacePiece r (Lit c) = [c]"
| "replacePiece r (Placeholder s) = r"

definition replaceAll_placeholders :: "string \<Rightarrow> string \<Rightarrow> string" where
  "replaceAll_placeholders name r = concat (map (replacePiece r) (scan name))"

definition createStepNamePattern :: "string \<Rightarrow> string" where
  "createStepNamePattern name =
     [CHR ''^'', BACKSLASH, CHR ''*'', BACKSLASH, CHR ''s'', CHR ''+'']
     @ replaceAll_placeholders name ''.+''
     @ [BACKSLASH, CHR ''s'', CHR ''*'', CHR ''$'']"

section \<open>Extended regular expressions, as \<^verbatim>\<open>grep -E\<close> reads them\<close>

text \<open>
  The usage check hands the pattern to \<^verbatim>\<open>grep -E\<close>. The fragment of its syntax that
  is modelled here: the anchors \<^verbatim>\<open>^\<close> and \<^verbatim>\<open>$\<close>, the dot, a backslash before a
  special character (the character itself), backslash-s (a white-space character),
  every other character for itself, and one of the operators \<^verbatim>\<open>*\<close>, \<^verbatim>\<open>+\<close>,
  \<^verbatim>\<open>?\<close> after a character, a dot or an escape. Everything else (groups, alternation,
  brackets, intervals, an operator with nothing before it, other escapes) is outside the
  fragment: \<open>parse_ere\<close> answers \<open>None\<close> and nothing is said about such a pattern.
\<close>

datatype atom = Ch char | AnyCh | SpaceCh

datatype quant = Once | Opt | Many0 | Many1

datatype tok = TBol | TEol | TAtom atom | TQuant quant

datatype item = Bol | Eol | Rep atom quant

definition isspace :: "char \<Rightarrow> bool" where
  "isspace c = (c = CHR '' '' \<or> c = CHR 0x09 \<or> c = NEWLINE \<or> c = CHR 0x0B
                 \<or> c = CHR 0x0C \<or> c = CRETURN)"

fun accepts :: "atom \<Rightarrow> char \<Rightarrow> bool" where
  "accepts (Ch a) c = (c = a)"
| "accepts AnyCh c = True"
| "accepts SpaceCh c = isspace c"

definition escaped :: "char \<Rightarrow> tok option" where
  "escaped c =
     (if c \<in> set ''^.[]$()|*+?{}'' \<or> c = BACKSLASH then Some (TAtom (Ch c))
      else if c = CHR ''s'' then Some (TAtom SpaceCh)
      else None)"

definition plain :: "char \<Rightarrow> tok option" where
  "plain c =
     (if c = CHR ''^'' then Some TBol
      else if c = CHR ''$'' then Some TEol
      else if c = CHR ''.'' then Some (TAtom AnyCh)
      else if c = CHR ''*'' then Some (TQuant Many0)
      else if c = CHR ''+'' then Some (TQuant Many1)
      else if c = CHR ''?'' then Some (TQuant Opt)
      else if c \<in> set ''[](){}|'' \<or> c = BACKSLASH then None
      else Some (TAtom (Ch c)))"

fun lex :: "string \<Rightarrow> tok list option" where
  "lex [] = Some []"
| "lex [c] = map_option (\<lambda>t. [t]) (plain c)"
| "lex (c # d # cs) =
     (if c = BACKSLASH then
        (case escaped d of
           None \<Rightarrow> None
         | Some t \<Rightarrow> map_option (Cons t) (lex cs))
      else
        (case plain c of
           None \<Rightarrow> None
         | Some t \<Rightarrow> map_option (Cons t) (lex (d # cs))))"

fun items :: "tok list \<Rightarrow> item list option" where
  "items [] = Some []"
| "items (TBol # ts) = map_option (Cons Bol) (items ts)"
| "items (TEol # ts) = map_option (Cons Eol) (items ts)"
| "items (TAtom a # TQuant q # ts) = map_option (Cons (Rep a q)) (items ts)"
| "items (TAtom a # ts) = map_option (Cons (Rep a Once)) (items ts)"
| "items (TQuant q # ts) = None"

definition parse_ere :: "string \<Rightarrow> item list option" where
  "parse_ere p = (case lex p of None \<Rightarrow> None | Some ts \<Rightarrow> items ts)"

text \<open>
  \<open>match_here bol is s\<close>: the items \<open>is\<close> match a prefix of \<open>s\<close>; \<open>bol\<close> says that
  \<open>s\<close> is the whole line (no character has been passed). \<open>match_line\<close> tries every
  position of the line, as \<^verbatim>\<open>grep\<close> selects a line that holds a match anywhere.
\<close>

fun match_here :: "bool \<Rightarrow> item list \<Rightarrow> string \<Rightarrow> bool" where
  "match_here bol [] s = True"
| "match_here bol (Bol # is) s = (bol \<and> match_here bol is s)"
| "match_here bol (Eol # is) s = (s = [] \<and> match_here bol is s)"
| "match_here bol (Rep a Once # is) s =
     (case s of [] \<Rightarrow> False | c # cs \<Rightarrow> accepts a c \<and> match_here False is cs)"
| "match_here bol (Rep a Opt # is) s =
     (match_here bol is s \<or>
      (case s of [] \<Rightarrow> False | c # cs \<Rightarrow> accepts a c \<and> match_here False is cs))"
| "match_here bol (Rep a Many0 # is) s =
     (match_here bol is s \<or>
      (case s of [] \<Rightarrow> False
       | c # cs \<Rightarrow> accepts a c \<and> match_here False (Rep a Many0 # is) cs))"
| "match_here bol (Rep a Many1 # is) s =
     (case s of [] \<Rightarrow> False
      | c # cs \<Rightarrow> accepts a c \<and> match_here False (Rep a Many0 # is) cs)"

fun match_line :: "bool \<Rightarrow> item list \<Rightarrow> string \<Rightarrow> bool" where
  "match_line bol is [] = match_here bol is []"
| "match_line bol is (c # cs) = (match_here bol is (c # cs) \<or> match_line False is cs)"

definition grep_E_selects :: "string \<Rightarrow> string \<Rightarrow> bool option" where
  "grep_E_selects p line = map_option (\<lambda>is. match_line True is line) (parse_ere p)"

section \<open>Placeholders and wildcard tokens of a name\<close>

text \<open>
  The notions the properties of the pattern are stated with. The placeholder spans of a
  name are the matches of the scan; the text outside them is what the scan keeps. A
  wildcard token is an occurrence of the two characters \<^verbatim>\<open>.+\<close>.
\<close>

fun piece_text :: "piece \<Rightarrow> string" where
  "piece_text (Lit c) = [c]"
| "piece_text (Placeholder s) = s"

fun spans :: "piece list \<Rightarrow> string list" where
  "spans [] = []"
| "spans (Lit c # ps) = spans ps"
| "spans (Placeholder s # ps) = s # spans ps"

fun literals :: "piece list \<Rightarrow> string" where
  "literals [] = []"
| "literals (Lit c # ps) = c # literals ps"
| "literals (Placeholder s # ps) = literals ps"

fun literal_wildcards :: "piece list \<Rightarrow> nat" where
  "literal_wildcards (Lit a # Lit b # ps) =
     (if a = CHR ''.'' \<and> b = CHR ''+'' then 1 else 0) + literal_wildcards (Lit b # ps)"
| "literal_wildcards (Lit a # Placeholder s # ps) = literal_wildcards ps"
| "literal_wildcards (Placeholder s # ps) = literal_wildcards ps"
| "literal_wildcards [Lit a] = 0"
| "literal_wildcards [] = 0"

fun count_wildcards :: "string \<Rightarrow> nat" where
  "count_wildcards (a # b # cs) =
     (if a = CHR ''.'' \<and> b = CHR ''+'' then 1 else 0) + count_wildcards (b # cs)"
| "count_wildcards [a] = 0"
| "count_wildcards [] = 0"

definition placeholders :: "string \<Rightarrow> string list" where
  "placeholders name = spans (scan name)"

definition outside :: "string \<Rightarrow> string" where
  "outside name = literals (scan name)"

definition outside_wildcards :: "string \<Rightarrow> nat" where
  "outside_wildcards name = literal_wildcards (scan name)"

text \<open>
  A name as the specification describes it: literal text and placeholder spans. It is
  given by the literal text before the first span and, for each span, its body and the
  literal text after it; \<open>with_placeholders\<close> writes the name out, each span as a
  less-than sign, the body and a greater-than sign, and \<open>with_wildcards\<close> writes the
  same text with the wildcard token in the place of each span. The body of a span holds
  no greater-than sign and no line terminator; literal text is in order when it holds
  neither sign and no wildcard token of its own. \<open>parts\<close> reads the literal texts and
  the bodies back from the pieces of a scan.
\<close>

definition span :: "string \<Rightarrow> string" where
  "span body = CHR ''<'' # body @ ''>''"

fun spans_text :: "(string \<times> string) list \<Rightarrow> string" where
  "spans_text [] = []"
| "spans_text ((body, g) # rest) = span body @ g @ spans_text rest"

fun wildcards_text :: "(string \<times> string) list \<Rightarrow> string" where
  "wildcards_text [] = []"
| "wildcards_text ((body, g) # rest) = ''.+'' @ g @ wildcards_text rest"

definition with_placeholders :: "string \<Rightarrow> (string \<times> string) list \<Rightarrow> string" where
  "with_placeholders g0 rest = g0 @ spans_text rest"

definition with_wildcards :: "string \<Rightarrow> (string \<times> string) list \<Rightarrow> string" where
  "with_wildcards g0 rest = g0 @ wildcards_text rest"

definition literal_ok :: "string \<Rightarrow> bool" where
  "literal_ok g = (CHR ''<'' \<notin> set g \<and> CHR ''>'' \<notin> set g \<and> count_wildcards g = 0)"

definition body_ok :: "string \<Rightarrow> bool" where
  "body_ok body = (CHR ''>'' \<notin> set body \<and> \<not> list_ex isLineTerminator body)"

fun parts :: "piece list \<Rightarrow> string \<times> (string \<times> string) list" where
  "parts [] = ([], [])"
| "parts (Lit c # ps) = (c # fst (parts ps), snd (parts ps))"
| "parts (Placeholder s # ps) = ([], (butlast (tl s), fst (parts ps)) # snd (parts ps))"

section \<open>Files, commands and their exit status\<close>

text \<open>
  The script reads and writes files through shell commands only. A directory is modelled
  by the regular files below it, in the order \<^verbatim>\<open>find\<close> lists them: the path of each
  file and its content. A file the process cannot read has the content \<open>None\<close>. The
  directories themselves exist and can be listed, and no directory has a name that
  \<^verbatim>\<open>find -name\<close> would select. The paths of a directory are distinct; where a
  statement needs that, it says so.
\<close>

type_synonym tree = "(string \<times> string option) list"

record ProcessOutput =
  exitCode :: nat
  stdout :: string

datatype error = ProcessError ProcessOutput | TypeError

text \<open>
  The template function of zx runs a command line in bash under
  \<^verbatim>\<open>set -euo pipefail\<close>. Awaiting its promise yields the output when the exit code
  is zero and throws the output otherwise. Under \<^verbatim>\<open>pipefail\<close> the exit code of a
  pipeline is that of the rightmost command that failed, and zero when none did.
\<close>

definition dollar :: "ProcessOutput \<Rightarrow> error + ProcessOutput" where
  "dollar out = (if exitCode out = 0 then Inr out else Inl (ProcessError out))"

fun pipefail :: "nat list \<Rightarrow> nat" where
  "pipefail [] = 0"
| "pipefail (c # cs) = (if pipefail cs \<noteq> 0 then pipefail cs else c)"

text \<open>
  \<open>sequence\<close> is the outcome of \<^verbatim>\<open>Promise.all\<close> over promises that are settled one
  after the other, and of \<^verbatim>\<open>map\<close> with a callback that may throw: the list of the
  values, or the first error.
\<close>

fun sequence :: "(error + 'a) list \<Rightarrow> error + 'a list" where
  "sequence [] = Inr []"
| "sequence (r # rs) =
     (case r of
        Inl e \<Rightarrow> Inl e
      | Inr x \<Rightarrow> (case sequence rs of Inl e \<Rightarrow> Inl e | Inr xs \<Rightarrow> Inr (x # xs)))"

subsection \<open>Text as lines\<close>

fun split_nl :: "string \<Rightarrow> string list" where
  "split_nl [] = [[]]"
| "split_nl (c # cs) =
     (if c = NEWLINE then [] # split_nl cs
      else (case split_nl cs of [] \<Rightarrow> [[c]] | l # ls \<Rightarrow> (c # l) # ls))"

text \<open>
  \<open>split_nl\<close> is \<^verbatim>\<open>split("\n")\<close> of JavaScript. The shell tools read a text as
  lines: a newline ends a line, and a last line without one still counts.
\<close>

definition lines :: "string \<Rightarrow> string list" where
  "lines s = (let ls = split_nl s in if last ls = [] then butlast ls else ls)"

definition unlines :: "string list \<Rightarrow> string" where
  "unlines ls = concat (map (\<lambda>l. l @ [NEWLINE]) ls)"

definition isWhiteSpace :: "char \<Rightarrow> bool" where
  "isWhiteSpace c = (isspace c \<or> c = CHR 0xA0)"

definition trim :: "string \<Rightarrow> string" where
  "trim s = rev (dropWhile isWhiteSpace (rev (dropWhile isWhiteSpace s)))"

definition digit :: "nat \<Rightarrow> char" where
  "digit n = ''0123456789'' ! n"

fun show_nat :: "nat \<Rightarrow> string" where
  "show_nat n = (if n < 10 then [digit n] else show_nat (n div 10) @ [digit (n mod 10)])"

declare show_nat.simps [simp del]

fun starts_with :: "string \<Rightarrow> string \<Rightarrow> bool" where
  "starts_with [] s = True"
| "starts_with (p # ps) [] = False"
| "starts_with (p # ps) (c # cs) = (p = c \<and> starts_with ps cs)"

fun contains :: "string \<Rightarrow> string \<Rightarrow> bool" where
  "contains sub [] = (sub = [])"
| "contains sub (c # cs) = (starts_with sub (c # cs) \<or> contains sub cs)"

definition ends_with :: "string \<Rightarrow> string \<Rightarrow> bool" where
  "ends_with sfx s = starts_with (rev sfx) (rev s)"

subsection \<open>The commands\<close>

text \<open>
  \<^verbatim>\<open>find DIR -type f\<close> prints the path of every regular file, one per line;
  \<^verbatim>\<open>find DIR -name PATTERN\<close> with a pattern that is a star and a suffix prints the
  paths that end with the suffix. \<^verbatim>\<open>cat\<close> prints the contents of its files and
  fails when it cannot read one; \<^verbatim>\<open>find -exec\<close> then exits with 1.
  \<^verbatim>\<open>wc -l\<close> prints the number of newline characters.
\<close>

definition find_type_f :: "tree \<Rightarrow> ProcessOutput" where
  "find_type_f t = \<lparr>exitCode = 0, stdout = unlines (map fst t)\<rparr>"

definition named :: "string \<Rightarrow> tree \<Rightarrow> tree" where
  "named sfx t = filter (\<lambda>f. ends_with sfx (fst f)) t"

definition find_name :: "string \<Rightarrow> tree \<Rightarrow> ProcessOutput" where
  "find_name sfx t = \<lparr>exitCode = 0, stdout = unlines (map fst (named sfx t))\<rparr>"

definition cat :: "tree \<Rightarrow> ProcessOutput" where
  "cat t = \<lparr>exitCode = (if None \<in> set (map snd t) then 1 else 0),
            stdout = concat (map (\<lambda>f. case snd f of None \<Rightarrow> [] | Some c \<Rightarrow> c) t)\<rparr>"

text \<open>
  \<^verbatim>\<open>xargs\<close> does not take its input line by line: it cuts it into arguments. White
  space before an argument is skipped; a blank or a newline ends an argument; a single
  or double quote starts a run that is taken as it is up to the same quote, and a
  newline inside it is an error; a backslash takes the next character as it is. At the
  end of the input an argument that is not empty is kept, and it is an error when a
  quote is still open. \<open>xargs_read\<close> answers the arguments read before an error, if
  any, and whether there was none.

  \<^verbatim>\<open>xargs cat\<close> then runs \<^verbatim>\<open>cat\<close> on the arguments (without arguments
  \<^verbatim>\<open>cat\<close> reads the empty input). An argument that is not the path of a file of
  the directory names no file, and \<^verbatim>\<open>cat\<close> fails on it as on a file it cannot
  read. The exit code is 1 after an error in the input, 123 when \<^verbatim>\<open>cat\<close> failed
  and 0 otherwise.
\<close>

datatype xmode = XSpace | XNorm | XQuote char | XBackslash

definition isblank :: "char \<Rightarrow> bool" where
  "isblank c = (c = CHR '' '' \<or> c = CHR 0x09)"

definition push :: "string \<Rightarrow> string list \<times> bool \<Rightarrow> string list \<times> bool" where
  "push item r = (item # fst r, snd r)"

fun xargs_read :: "xmode \<Rightarrow> string \<Rightarrow> string \<Rightarrow> string list \<times> bool" where
  "xargs_read mode item [] =
     (if item = [] then ([], True)
      else (case mode of XQuote q \<Rightarrow> ([], False) | _ \<Rightarrow> ([item], True)))"
| "xargs_read mode item (c # cs) =
     (case mode of
        XQuote q \<Rightarrow>
          if c = NEWLINE then ([], False)
          else if c = q then xargs_read XNorm item cs
          else xargs_read (XQuote q) (item @ [c]) cs
      | XBackslash \<Rightarrow> xargs_read XNorm (item @ [c]) cs
      | _ \<Rightarrow>
          if mode = XSpace \<and> isspace c then xargs_read XSpace item cs
          else if c = NEWLINE then push item (xargs_read XSpace [] cs)
          else if isblank c then push item (xargs_read XSpace [] cs)
          else if c = BACKSLASH then xargs_read XBackslash item cs
          else if c = CHR 0x27 \<or> c = DQUOTE then xargs_read (XQuote c) item cs
          else xargs_read XNorm (item @ [c]) cs)"

definition file_at :: "tree \<Rightarrow> string \<Rightarrow> string \<times> string option" where
  "file_at t a = (a, case map_of t a of None \<Rightarrow> None | Some f \<Rightarrow> f)"

definition xargs_cat :: "string \<Rightarrow> tree \<Rightarrow> ProcessOutput" where
  "xargs_cat input t =
     (let r = xargs_read XSpace [] input;
          c = cat (map (file_at t) (fst r))
      in \<lparr>exitCode = (if \<not> snd r then 1 else if exitCode c = 0 then 0 else 123),
          stdout = stdout c\<rparr>)"

definition find_exec_cat :: "tree \<Rightarrow> ProcessOutput" where
  "find_exec_cat t = \<lparr>exitCode = (if exitCode (cat t) = 0 then 0 else 1), stdout = stdout (cat t)\<rparr>"

definition count_newlines :: "string \<Rightarrow> nat" where
  "count_newlines s = length (filter (\<lambda>c. c = NEWLINE) s)"

definition wc_l :: "string \<Rightarrow> ProcessOutput" where
  "wc_l s = \<lparr>exitCode = 0, stdout = show_nat (count_newlines s) @ [NEWLINE]\<rparr>"

text \<open>
  \<^verbatim>\<open>grep -E\<close> is a parameter of the model: a function from the pattern and the input
  to the output, with exit code 0 when a line is selected, 1 when none is and 2 when the
  pattern is rejected. \<open>grep_E_fragment\<close> is \<^verbatim>\<open>grep -E\<close> on the patterns of the
  fragment above; it is used where a statement needs a concrete pattern, and only with
  patterns of the fragment.
\<close>

type_synonym grep = "string \<Rightarrow> string \<Rightarrow> ProcessOutput"

definition grep_E_fragment :: grep where
  "grep_E_fragment p input =
     (case parse_ere p of
        None \<Rightarrow> \<lparr>exitCode = 2, stdout = []\<rparr>
      | Some is \<Rightarrow>
          (let sel = filter (match_line True is) (lines input)
           in \<lparr>exitCode = (if sel = [] then 1 else 0), stdout = unlines sel\<rparr>))"

text \<open>
  The first \<^verbatim>\<open>awk\<close> of the step pipeline prints the lines of each range that starts
  at a line holding \<^verbatim>\<open>@Step\<close> and ends at the next line holding a closing
  parenthesis, which may be the same line. The second prints a line that ends with a
  comma without its newline and every other line with it. \<^verbatim>\<open>grep -o\<close> with a quote,
  any characters and a quote prints, of each line with two quotes, the part from the
  first quote to the last.
\<close>

fun awk_range :: "bool \<Rightarrow> string list \<Rightarrow> string list" where
  "awk_range inside [] = []"
| "awk_range inside (l # ls) =
     (if inside \<or> contains ''@Step'' l
      then l # awk_range (CHR '')'' \<notin> set l) ls
      else awk_range False ls)"

definition awk_step_ranges :: "string \<Rightarrow> string" where
  "awk_step_ranges s = unlines (awk_range False (lines s))"

fun awk_join :: "string list \<Rightarrow> string" where
  "awk_join [] = []"
| "awk_join (l # ls) =
     (if l \<noteq> [] \<and> last l = CHR '','' then l @ awk_join ls else l @ [NEWLINE] @ awk_join ls)"

definition awk_join_continued :: "string \<Rightarrow> string" where
  "awk_join_continued s = awk_join (lines s)"

definition quoted_part :: "string \<Rightarrow> string option" where
  "quoted_part l =
     (let r = dropWhile (\<lambda>c. c \<noteq> DQUOTE) l
      in if 2 \<le> length (filter (\<lambda>c. c = DQUOTE) r)
         then Some (rev (dropWhile (\<lambda>c. c \<noteq> DQUOTE) (rev r)))
         else None)"

definition grep_o_quoted :: "string \<Rightarrow> ProcessOutput" where
  "grep_o_quoted s =
     (let ms = List.map_filter quoted_part (lines s)
      in \<lparr>exitCode = (if ms = [] then 1 else 0), stdout = unlines ms\<rparr>)"

text \<open>
  \<^verbatim>\<open>grep -oE\<close> with the header pattern of \<open>findConcepts\<close> (a hash sign at the start
  of the line, white space, anything) prints each line that starts with a hash sign and
  a white-space character, whole.
\<close>

definition concept_header :: "string \<Rightarrow> bool" where
  "concept_header l = (case l of c # d # r \<Rightarrow> c = CHR ''#'' \<and> isspace d | _ \<Rightarrow> False)"

definition grep_oE_headers :: "string \<Rightarrow> ProcessOutput" where
  "grep_oE_headers s =
     (let ms = filter concept_header (lines s)
      in \<lparr>exitCode = (if ms = [] then 1 else 0), stdout = unlines ms\<rparr>)"

text \<open>
  The command of \<open>formatForStepSearch\<close> on one file: when the last byte of the file
  holds no newline (\<^verbatim>\<open>tail -c1\<close>, \<^verbatim>\<open>wc -l\<close>, the test against 0), \<^verbatim>\<open>echo\<close>
  appends one. \<open>append_newline\<close> is its effect on the content of a file it can read and
  write; \<open>run_AppendNewline\<close> is its effect on the files of a directory, given the
  path it was called with. The content of a file that cannot be read stays unknown.
\<close>

definition tail_c1 :: "string \<Rightarrow> string" where
  "tail_c1 s = (if s = [] then [] else [last s])"

definition append_newline :: "string \<Rightarrow> string" where
  "append_newline s = (if count_newlines (tail_c1 s) = 0 then s @ [NEWLINE] else s)"

definition run_AppendNewline :: "string \<Rightarrow> tree \<Rightarrow> tree" where
  "run_AppendNewline file t =
     map (\<lambda>f. if fst f = file then (fst f, map_option append_newline (snd f)) else f) t"

section \<open>The script\<close>

record Definition =
  stepName :: string
  pattern :: string

record Checked = Definition +
  unused :: bool

definition createDefinition :: "string \<Rightarrow> string \<Rightarrow> Definition" where
  "createDefinition name p = \<lparr>stepName = name, pattern = p\<rparr>"

definition createDefinitions :: "string list \<Rightarrow> Definition list" where
  "createDefinitions stepNames =
     map (\<lambda>name. createDefinition name (createStepNamePattern name)) stepNames"

text \<open>
  \<open>match_quoted\<close> is \<^verbatim>\<open>match\<close> with the global regular expression of a quote, a
  lazy run of any characters and a quote: the list of the matches, quotes included. On
  no match JavaScript answers \<^verbatim>\<open>null\<close>, and the \<^verbatim>\<open>map\<close> that follows throws a
  TypeError.
\<close>

fun match_quoted :: "string \<Rightarrow> string list" where
  "match_quoted [] = []"
| "match_quoted (c # cs) =
     (if c = DQUOTE then
        (case lazy_until DQUOTE cs of
           Some (body, rest) \<Rightarrow> (c # body @ [DQUOTE]) # match_quoted rest
         | None \<Rightarrow> match_quoted cs)
      else match_quoted cs)"

definition convertToStepNames :: "string \<Rightarrow> error + Definition list" where
  "convertToStepNames line =
     (case match_quoted line of
        [] \<Rightarrow> Inl TypeError
      | m # ms \<Rightarrow> Inr (createDefinitions (map (filter (\<lambda>c. c \<noteq> DQUOTE)) (m # ms))))"

definition steps_pipeline :: "tree \<Rightarrow> ProcessOutput" where
  "steps_pipeline src =
     (let f = find_name ''kt'' src;
          c = xargs_cat (stdout f) src;
          g = grep_o_quoted (awk_join_continued (awk_step_ranges (stdout c)))
      in \<lparr>exitCode = pipefail [exitCode f, exitCode c, 0, 0, exitCode g], stdout = stdout g\<rparr>)"

definition findSteps :: "tree \<Rightarrow> error + Definition list list" where
  "findSteps src =
     (case dollar (steps_pipeline src) of
        Inl e \<Rightarrow> Inl e
      | Inr rawSteps \<Rightarrow>
          sequence (map convertToStepNames
                      (filter (\<lambda>line. length line > 0) (split_nl (stdout rawSteps)))))"

definition concepts_pipeline :: "tree \<Rightarrow> ProcessOutput" where
  "concepts_pipeline specs =
     (let f = find_name ''.cpt'' specs;
          c = xargs_cat (stdout f) specs;
          g = grep_oE_headers (stdout c)
      in \<lparr>exitCode = pipefail [exitCode f, exitCode c, exitCode g], stdout = stdout g\<rparr>)"

definition findConcepts :: "tree \<Rightarrow> error + Definition list" where
  "findConcepts specs =
     (case dollar (find_name ''.cpt'' specs) of
        Inl e \<Rightarrow> Inl e
      | Inr result \<Rightarrow>
          if length (trim (stdout result)) = 0 then Inr []
          else
            (case dollar (concepts_pipeline specs) of
               Inl e \<Rightarrow> Inl e
             | Inr rawConcepts \<Rightarrow>
                 Inr (map (\<lambda>concept. createDefinition concept (createStepNamePattern concept))
                        (map (\<lambda>concept. trim (filter (\<lambda>c. c \<noteq> CHR ''#'') concept))
                           (split_nl (trim (stdout rawConcepts)))))))"

text \<open>
  The processes the script starts. \<open>formatForStepSearch\<close> starts one
  \<open>AppendNewline\<close> per listed file inside an asynchronous arrow function that neither
  awaits nor returns the promise of the command: the promises it hands to
  \<^verbatim>\<open>Promise.all\<close> are those of the arrow functions, which are settled as soon as
  the commands are started. The function answers the commands it has left running and
  the line it printed. \<open>formatted\<close> is the directory once all of them have exited.
\<close>

datatype command =
    FindSpecFiles
  | AppendNewline string
  | StepsPipeline
  | UsageCheck string
  | FindConceptFiles
  | ConceptsPipeline

definition findSpecFiles :: "tree \<Rightarrow> error + string list" where
  "findSpecFiles specs =
     (case dollar (find_type_f specs) of
        Inl e \<Rightarrow> Inl e
      | Inr result \<Rightarrow> Inr (split_nl (trim (stdout result))))"

definition formatForStepSearch :: "tree \<Rightarrow> error + command list \<times> string list" where
  "formatForStepSearch specs =
     (case findSpecFiles specs of
        Inl e \<Rightarrow> Inl e
      | Inr specFiles \<Rightarrow> Inr (map AppendNewline specFiles, [''Format done.'' @ [NEWLINE]]))"

fun run_command :: "command \<Rightarrow> tree \<Rightarrow> tree" where
  "run_command (AppendNewline file) t = run_AppendNewline file t"
| "run_command c t = t"

definition formatted :: "tree \<Rightarrow> tree" where
  "formatted specs =
     (case formatForStepSearch specs of
        Inl e \<Rightarrow> specs
      | Inr (started, out) \<Rightarrow> fold run_command started specs)"

definition usage_pipeline :: "grep \<Rightarrow> string \<Rightarrow> tree \<Rightarrow> ProcessOutput" where
  "usage_pipeline grep_E p specs =
     (let c = find_exec_cat specs;
          g = grep_E p (stdout c);
          w = wc_l (stdout g)
      in \<lparr>exitCode = pipefail [exitCode c, exitCode g, exitCode w], stdout = stdout w\<rparr>)"

definition isUnused :: "grep \<Rightarrow> Definition \<Rightarrow> tree \<Rightarrow> error + bool" where
  "isUnused grep_E d specs =
     (case dollar (usage_pipeline grep_E (pattern d) specs) of
        Inr out \<Rightarrow> Inr False
      | Inl e \<Rightarrow> Inr True)"

definition check :: "grep \<Rightarrow> tree \<Rightarrow> Definition \<Rightarrow> error + Checked" where
  "check grep_E specs d =
     (case isUnused grep_E d specs of
        Inl e \<Rightarrow> Inl e
      | Inr u \<Rightarrow> Inr \<lparr>stepName = stepName d, pattern = pattern d, unused = u\<rparr>)"

definition findUnusedSteps :: "grep \<Rightarrow> Definition list list \<Rightarrow> tree \<Rightarrow> error + Checked list list" where
  "findUnusedSteps grep_E steps specs =
     (case sequence (map (\<lambda>step. sequence (map (check grep_E specs) step)) steps) of
        Inl e \<Rightarrow> Inl e
      | Inr result \<Rightarrow> Inr (filter (list_ex unused) result))"

definition printUnusedSteps :: "Checked list list \<Rightarrow> string list" where
  "printUnusedSteps steps =
     [''Unused step names:'']
     @ concat (map (\<lambda>step. map (\<lambda>d. ''* '' @ stepName d) (filter unused step)) steps)
     @ ['''']"

definition findUnusedConcepts :: "grep \<Rightarrow> Definition list \<Rightarrow> tree \<Rightarrow> error + Checked list" where
  "findUnusedConcepts grep_E concepts specs =
     (case sequence (map (check grep_E specs) concepts) of
        Inl e \<Rightarrow> Inl e
      | Inr result \<Rightarrow> Inr (filter unused result))"

definition printUnusedConcepts :: "Checked list \<Rightarrow> string list" where
  "printUnusedConcepts concepts =
     [''Unused concepts:''] @ map (\<lambda>concept. ''# '' @ stepName concept) concepts @ ['''']"

definition separator :: string where
  "separator = replicate 54 (CHR ''-'')"

definition printSummary ::
  "Definition list list \<Rightarrow> Checked list list \<Rightarrow> Definition list \<Rightarrow> Checked list \<Rightarrow> string list" where
  "printSummary steps unusedSteps concepts unusedConcepts =
     (let stepNameCount = foldl (\<lambda>sum step. sum + length step) 0 steps;
          unusedStepNameCount =
            foldl (\<lambda>sum step. sum + length (filter unused step)) 0 unusedSteps
      in [separator]
         @ (if unusedStepNameCount > 0 \<or> length unusedConcepts > 0
            then [''Unused steps: '' @ show_nat (length unusedSteps) @ '' / ''
                    @ show_nat (length steps),
                  ''Unused step names: '' @ show_nat unusedStepNameCount @ '' / ''
                    @ show_nat stepNameCount,
                  ''Unused concepts: '' @ show_nat (length unusedConcepts) @ '' / ''
                    @ show_nat (length concepts)]
            else [''ALL CLEAN!''])
         @ [separator])"

record World =
  projectDir :: string
  srcDir :: string
  specsDir :: string
  srcFiles :: tree
  specsFiles :: tree

definition printTarget :: "World \<Rightarrow> string list" where
  "printTarget w =
     [separator,
      ''Target project directory:  '' @ projectDir w,
      ''Src directory:  '' @ srcDir w,
      ''Specs directory:  '' @ specsDir w,
      separator]"

text \<open>
  \<open>exec\<close> is the run on a project: the lines it prints, or the error it ends with.
  \<open>srcDir\<close> and \<open>specsDir\<close> are the two normalized paths, \<open>srcFiles\<close> and
  \<open>specsFiles\<close> the files below them as the commands of the run read them.
\<close>

definition exec :: "grep \<Rightarrow> World \<Rightarrow> error + string list" where
  "exec grep_E w =
     (case formatForStepSearch (specsFiles w) of
        Inl e \<Rightarrow> Inl e
      | Inr (started, formatOut) \<Rightarrow>
     (case findSteps (srcFiles w) of
        Inl e \<Rightarrow> Inl e
      | Inr steps \<Rightarrow>
     (case findUnusedSteps grep_E steps (specsFiles w) of
        Inl e \<Rightarrow> Inl e
      | Inr unusedSteps \<Rightarrow>
     (case findConcepts (specsFiles w) of
        Inl e \<Rightarrow> Inl e
      | Inr concepts \<Rightarrow>
     (case (if length concepts > 0 then findUnusedConcepts grep_E concepts (specsFiles w)
            else Inr []) of
        Inl e \<Rightarrow> Inl e
      | Inr unusedConcepts \<Rightarrow>
          Inr (printTarget w @ formatOut @ printUnusedSteps unusedSteps
               @ printUnusedConcepts unusedConcepts
               @ printSummary steps unusedSteps concepts unusedConcepts))))))"

section \<open>Notions of the report\<close>

text \<open>
  A declaration is individually unused when its usage check answers \<^verbatim>\<open>true\<close>;
  \<open>marked\<close> is the declaration with that flag attached.
\<close>

definition individually_unused :: "grep \<Rightarrow> tree \<Rightarrow> Definition \<Rightarrow> bool" where
  "individually_unused grep_E specs d = (isUnused grep_E d specs = Inr True)"

definition marked :: "grep \<Rightarrow> tree \<Rightarrow> Definition \<Rightarrow> Checked" where
  "marked grep_E specs d =
     \<lparr>stepName = stepName d, pattern = pattern d, unused = individually_unused grep_E specs d\<rparr>"

definition flagged :: "grep \<Rightarrow> tree \<Rightarrow> Definition list list \<Rightarrow> Checked list list" where
  "flagged grep_E specs steps =
     map (map (marked grep_E specs)) (filter (list_ex (individually_unused grep_E specs)) steps)"


definition rtrim :: "string \<Rightarrow> string" where
  "rtrim s = rev (dropWhile isWhiteSpace (rev s))"

section \<open>The order of the processes\<close>

text \<open>
  What the run does with its processes, in the order of the script: \<open>Start c\<close>
  starts the command \<open>c\<close>, and \<open>Await cs\<close> is an \<^verbatim>\<open>await\<close> that goes on once
  each command of \<open>cs\<close> has exited. An awaited command is a \<open>Start\<close> followed by
  its \<open>Await\<close>; \<^verbatim>\<open>Promise.all\<close> over usage checks is the \<open>Start\<close> of each
  check followed by one \<open>Await\<close> of all of them. In \<open>formatForStepSearch\<close> the
  \<^verbatim>\<open>await\<close> of \<^verbatim>\<open>Promise.all\<close> waits for the promises of the arrow functions,
  which depend on no command: it is \<open>Await []\<close>.
\<close>

datatype action = Start command | Await "command list"

definition usage_checks :: "Definition list \<Rightarrow> command list" where
  "usage_checks ds = map (\<lambda>d. UsageCheck (pattern d)) ds"

definition concept_actions :: "tree \<Rightarrow> action list" where
  "concept_actions t =
     [Start FindConceptFiles, Await [FindConceptFiles]]
     @ (if length (trim (stdout (find_name ''.cpt'' t))) = 0 then []
        else [Start ConceptsPipeline, Await [ConceptsPipeline]]
             @ (case findConcepts t of
                  Inl e \<Rightarrow> []
                | Inr concepts \<Rightarrow>
                    if length concepts > 0
                    then map Start (usage_checks concepts) @ [Await (usage_checks concepts)]
                    else []))"

definition exec_actions :: "World \<Rightarrow> action list" where
  "exec_actions w =
     [Start FindSpecFiles, Await [FindSpecFiles]]
     @ (case formatForStepSearch (specsFiles w) of
          Inl e \<Rightarrow> []
        | Inr (started, out) \<Rightarrow>
            map Start started @ [Await []]
            @ [Start StepsPipeline, Await [StepsPipeline]]
            @ (case findSteps (srcFiles w) of
                 Inl e \<Rightarrow> []
               | Inr steps \<Rightarrow>
                   map Start (usage_checks (concat steps))
                   @ [Await (usage_checks (concat steps))]
                   @ concept_actions (specsFiles w)))"

text \<open>
  A configuration of a run: the actions the script has still to do and the processes
  that are running. The script does its next action, or a running process exits; an
  \<open>Await\<close> cannot be passed while a command it names is running. \<open>run\<close> follows a
  list of such events and answers \<open>None\<close> when one of them is not possible.
\<close>

type_synonym config = "action list \<times> command list"

datatype event = Script | Exit command

fun perform :: "event \<Rightarrow> config \<Rightarrow> config option" where
  "perform Script ([], running) = None"
| "perform Script (Start c # todo, running) = Some (todo, c # running)"
| "perform Script (Await cs # todo, running) =
     (if list_ex (\<lambda>c. c \<in> set running) cs then None else Some (todo, running))"
| "perform (Exit c) (todo, running) =
     (if c \<in> set running then Some (todo, remove1 c running) else None)"

fun run :: "event list \<Rightarrow> config \<Rightarrow> config option" where
  "run [] cfg = Some cfg"
| "run (e # es) cfg = (case perform e cfg of None \<Rightarrow> None | Some cfg' \<Rightarrow> run es cfg')"

fun is_append :: "command \<Rightarrow> bool" where
  "is_append (AppendNewline file) = True"
| "is_append c = False"

fun check_starts_during_append :: "config \<Rightarrow> bool" where
  "check_starts_during_append (Start (UsageCheck p) # todo, running) = list_ex is_append running"
| "check_starts_during_append cfg = False"

section \<open>Sample projects\<close>

text \<open>
  Concrete declarations, files and projects, for the statements that are about a
  particular input.
\<close>

definition login :: Definition where
  "login = createDefinition ''Login'' (createStepNamePattern ''Login'')"

definition specs_login :: tree where
  "specs_login = [(''p/specs/a.spec'', Some (''* Login'' @ [NEWLINE]))]"

definition specs_logout :: tree where
  "specs_logout = [(''p/specs/a.spec'', Some (''* Logout'' @ [NEWLINE]))]"

definition specs_unreadable :: tree where
  "specs_unreadable =
     [(''p/specs/a.spec'', Some (''* Login'' @ [NEWLINE])), (''p/specs/b.spec'', None)]"

definition specs_mixed :: tree where
  "specs_mixed =
     [(''p/specs/a.spec'', Some ''* Login''),
      (''p/specs/b.spec'', Some (''* Logout'' @ [NEWLINE])),
      (''p/specs/c.spec'', Some [])]"


definition steps_kt :: "string list \<Rightarrow> string" where
  "steps_kt names =
     concat (map (\<lambda>name. ''@Step('' @ [DQUOTE] @ name @ [DQUOTE] @ '')'' @ [NEWLINE]
                          @ ''fun f() {}'' @ [NEWLINE]) names)"

definition project :: "tree \<Rightarrow> tree \<Rightarrow> World" where
  "project sources specifications =
     \<lparr>projectDir = ''p'', srcDir = ''p/src/test/kotlin'', specsDir = ''p/specs'',
      srcFiles = sources, specsFiles = specifications\<rparr>"

definition project_without_sources :: World where
  "project_without_sources =
     project [(''p/src/test/kotlin/notes.txt'', Some ''to do'')] specs_login"

definition project_clean :: World where
  "project_clean =
     project [(''p/src/test/kotlin/Steps.kt'', Some (steps_kt [''Login'']))] specs_login"

definition project_unused :: World where
  "project_unused =
     project [(''p/src/test/kotlin/Steps.kt'', Some (steps_kt [''Login'', ''Logout'']))]
       specs_login"

definition project_unreadable_cpt :: World where
  "project_unreadable_cpt =
     project [(''p/src/test/kotlin/Steps.kt'', Some (steps_kt [''Login'']))]
       [(''p/specs/a.spec'', Some (''* Login'' @ [NEWLINE])), (''p/specs/b.cpt'', None)]"

section \<open>Properties of the pattern\<close>

text \<open>
  The scan cuts the name into pieces and loses nothing; a placeholder starts with a
  less-than sign and ends at the first greater-than sign after it.
\<close>

lemma lazy_until_text: "lazy_until e cs = Some (body, rest) \<Longrightarrow> cs = body @ e # rest"
  by (induction cs arbitrary: body rest) (auto split: if_splits option.splits)

lemma lazy_until_body:
  "lazy_until e cs = Some (body, rest) \<Longrightarrow>
     e \<notin> set body \<and> (\<forall>c \<in> set body. \<not> isLineTerminator c)"
  by (induction cs arbitrary: body rest) (auto split: if_splits option.splits)

lemma scan_text: "concat (map piece_text (scan name)) = name"
  by (induction name rule: scan.induct) (auto split: option.splits dest: lazy_until_text)

lemma placeholder_shape:
  "Placeholder s \<in> set (scan name) \<Longrightarrow>
     \<exists>body. s = CHR ''<'' # body @ ''>'' \<and> CHR ''>'' \<notin> set body
            \<and> (\<forall>c \<in> set body. \<not> isLineTerminator c)"
proof (induction name rule: scan.induct)
  case 1
  then show ?case by simp
next
  case (2 c cs)
  show ?case
  proof (cases "c = CHR ''<''")
    case False
    with 2 show ?thesis by simp
  next
    case lt: True
    show ?thesis
    proof (cases "lazy_until (CHR ''>'') cs")
      case None
      with 2 lt show ?thesis by simp
    next
      case (Some br)
      obtain body rest where br: "br = (body, rest)" by (cases br)
      from 2(4) lt Some br
      consider "s = CHR ''<'' # body @ ''>''" | "Placeholder s \<in> set (scan rest)"
        by auto
      then show ?thesis
      proof cases
        case 1
        with lazy_until_body [of "CHR ''>''" cs body rest] Some br show ?thesis by blast
      next
        case 2
        from "2.IH"(2) [OF lt Some br [symmetric] 2] show ?thesis .
      qed
    qed
  qed
qed

lemma count_wildcards_skip:
  "a \<noteq> CHR ''.'' \<Longrightarrow> count_wildcards (a # cs) = count_wildcards cs"
  by (cases cs) auto

lemma count_wildcards_append:
  "count_wildcards (xs @ ys) = count_wildcards xs + count_wildcards ys
     + (if xs \<noteq> [] \<and> ys \<noteq> [] \<and> last xs = CHR ''.'' \<and> hd ys = CHR ''+'' then 1 else 0)"
proof (induction xs rule: count_wildcards.induct)
  case (2 a)
  show ?case by (cases ys) auto
qed auto

lemma count_wildcards_render:
  "count_wildcards (concat (map (replacePiece ''.+'') ps))
     = length (spans ps) + literal_wildcards ps"
  by (induction ps rule: literal_wildcards.induct) (auto simp: count_wildcards_skip)

lemma set_render:
  "set (concat (map (replacePiece ''.+'') ps))
     = set (literals ps) \<union> (if spans ps = [] then {} else {CHR ''.'', CHR ''+''})"
  by (induction ps rule: literals.induct) auto

lemma count_wildcards_pattern:
  "count_wildcards (createStepNamePattern name)
     = length (placeholders name) + outside_wildcards name"
  by (simp add: createStepNamePattern_def replaceAll_placeholders_def placeholders_def
      outside_wildcards_def count_wildcards_append count_wildcards_skip count_wildcards_render)

lemma delimiters_pattern:
  "c = CHR ''<'' \<or> c = CHR ''>'' \<Longrightarrow>
     c \<in> set (createStepNamePattern name) \<longleftrightarrow> c \<in> set (outside name)"
  unfolding createStepNamePattern_def replaceAll_placeholders_def outside_def set_append set_render
  by auto

lemma lazy_until_body_ok:
  "e \<notin> set body \<Longrightarrow> \<not> list_ex isLineTerminator body \<Longrightarrow>
     lazy_until e (body @ e # s) = Some (body, s)"
  by (induction body) auto

lemma scan_literal: "CHR ''<'' \<notin> set g \<Longrightarrow> scan (g @ s) = map Lit g @ scan s"
  by (induction g) auto

lemma scan_span: "body_ok body \<Longrightarrow> scan (span body @ s) = Placeholder (span body) # scan s"
  by (simp add: span_def body_ok_def lazy_until_body_ok)

lemma render_literal: "concat (map (replacePiece r \<circ> Lit) g) = g"
  by (induction g) auto

lemma render_spans_text:
  "list_all (\<lambda>(body, g). body_ok body \<and> CHR ''<'' \<notin> set g) rest \<Longrightarrow>
     concat (map (replacePiece ''.+'') (scan (spans_text rest))) = wildcards_text rest"
proof (induction rest)
  case Nil
  then show ?case by simp
next
  case (Cons bg rest)
  obtain body g where bg: "bg = (body, g)" by (cases bg)
  with Cons have body: "body_ok body" and g: "CHR ''<'' \<notin> set g"
    and IH: "concat (map (replacePiece ''.+'') (scan (spans_text rest))) = wildcards_text rest"
    by simp_all
  have "scan (spans_text (bg # rest)) = Placeholder (span body) # map Lit g @ scan (spans_text rest)"
    using body g by (simp add: bg scan_span scan_literal)
  then show ?case
    using IH by (simp add: bg render_literal)
qed

lemma pattern_with_placeholders:
  assumes "CHR ''<'' \<notin> set g0"
    and "list_all (\<lambda>(body, g). body_ok body \<and> CHR ''<'' \<notin> set g) rest"
  shows "createStepNamePattern (with_placeholders g0 rest)
           = [CHR ''^'', BACKSLASH, CHR ''*'', BACKSLASH, CHR ''s'', CHR ''+'']
             @ with_wildcards g0 rest @ [BACKSLASH, CHR ''s'', CHR ''*'', CHR ''$'']"
proof -
  have "concat (map (replacePiece ''.+'') (scan (g0 @ spans_text rest)))
          = g0 @ wildcards_text rest"
    using assms by (simp add: scan_literal render_literal render_spans_text)
  then show ?thesis
    by (simp add: createStepNamePattern_def replaceAll_placeholders_def with_placeholders_def
        with_wildcards_def)
qed

lemma hd_wildcards_text: "wildcards_text rest \<noteq> [] \<Longrightarrow> hd (wildcards_text rest) = CHR ''.''"
  by (cases rest) auto

lemma count_wildcards_literal:
  assumes "count_wildcards g = 0"
  shows "count_wildcards (g @ wildcards_text rest) = count_wildcards (wildcards_text rest)"
  using assms hd_wildcards_text [of rest] by (auto simp: count_wildcards_append)

lemma count_wildcards_text:
  "list_all (\<lambda>(body, g). count_wildcards g = 0) rest \<Longrightarrow>
     count_wildcards (wildcards_text rest) = length rest"
proof (induction rest)
  case Nil
  then show ?case by simp
next
  case (Cons bg rest)
  obtain body g where bg: "bg = (body, g)" by (cases bg)
  with Cons have g: "count_wildcards g = 0"
    and IH: "count_wildcards (wildcards_text rest) = length rest"
    by simp_all
  have "count_wildcards (CHR ''.'' # CHR ''+'' # g @ wildcards_text rest)
          = Suc (count_wildcards (g @ wildcards_text rest))"
    by (simp add: count_wildcards_skip)
  with g IH show ?case
    by (simp add: bg count_wildcards_literal)
qed

lemma set_wildcards_text:
  "c \<in> set (wildcards_text rest) \<Longrightarrow>
     c = CHR ''.'' \<or> c = CHR ''+'' \<or> (\<exists>bg \<in> set rest. c \<in> set (snd bg))"
  by (induction rest rule: wildcards_text.induct) auto


lemma body_of_span: "butlast (tl (span body)) = body"
  by (simp add: span_def)

lemma placeholder_span:
  "Placeholder s \<in> set (scan name) \<Longrightarrow> \<exists>body. s = span body \<and> body_ok body"
  using placeholder_shape [of s name]
  by (auto simp: span_def body_ok_def list_ex_iff)

lemma parts_text:
  assumes "\<forall>s. Placeholder s \<in> set ps \<longrightarrow> (\<exists>body. s = span body \<and> body_ok body)"
  shows "with_placeholders (fst (parts ps)) (snd (parts ps)) = concat (map piece_text ps)"
  using assms
proof (induction ps rule: parts.induct)
  case 1
  then show ?case by (simp add: with_placeholders_def)
next
  case (2 c ps)
  then show ?case by (simp add: with_placeholders_def)
next
  case (3 s ps)
  then obtain body where "s = span body" by auto
  with 3 show ?case
    by (simp add: with_placeholders_def body_of_span)
qed

lemma parts_ok:
  assumes "\<forall>s. Placeholder s \<in> set ps \<longrightarrow> (\<exists>body. s = span body \<and> body_ok body)"
    and "CHR ''<'' \<notin> set (literals ps)" and "CHR ''>'' \<notin> set (literals ps)"
    and "literal_wildcards ps = 0"
  shows "literal_ok (fst (parts ps))
         \<and> list_all (\<lambda>(body, g). body_ok body \<and> literal_ok g) (snd (parts ps))
         \<and> length (snd (parts ps)) = length (spans ps)"
  using assms
proof (induction ps rule: literal_wildcards.induct)
  case (1 a b ps)
  then have IH: "literal_ok (fst (parts (Lit b # ps)))"
    "list_all (\<lambda>(body, g). body_ok body \<and> literal_ok g) (snd (parts (Lit b # ps)))"
    "length (snd (parts (Lit b # ps))) = length (spans (Lit b # ps))"
    and ab: "\<not> (a = CHR ''.'' \<and> b = CHR ''+'')" and a: "a \<noteq> CHR ''<''" "a \<noteq> CHR ''>''"
    by (auto split: if_splits)
  from IH(1) ab a have "literal_ok (a # b # fst (parts ps))"
    by (auto simp: literal_ok_def)
  with IH show ?case by simp
next
  case (2 a s ps)
  then obtain body where s: "s = span body" and body: "body_ok body" by auto
  from 2 have IH: "literal_ok (fst (parts ps))"
    "list_all (\<lambda>(body, g). body_ok body \<and> literal_ok g) (snd (parts ps))"
    "length (snd (parts ps)) = length (spans ps)"
    and a: "a \<noteq> CHR ''<''" "a \<noteq> CHR ''>''"
    by auto
  from a have "literal_ok [a]" by (simp add: literal_ok_def)
  with IH s body show ?case by (simp add: body_of_span)
next
  case (3 s ps)
  then obtain body where s: "s = span body" and body: "body_ok body" by auto
  from 3 have IH: "literal_ok (fst (parts ps))"
    "list_all (\<lambda>(body, g). body_ok body \<and> literal_ok g) (snd (parts ps))"
    "length (snd (parts ps)) = length (spans ps)"
    by auto
  have "literal_ok []" by (simp add: literal_ok_def)
  with IH s body show ?case by (simp add: body_of_span)
next
  case (4 a)
  then show ?case by (simp add: literal_ok_def)
next
  case 5
  then show ?case by (simp add: literal_ok_def)
qed

lemma name_parts:
  assumes "CHR ''<'' \<notin> set (outside name)" and "CHR ''>'' \<notin> set (outside name)"
    and "outside_wildcards name = 0"
  shows "\<exists>g0 rest. name = with_placeholders g0 rest \<and> literal_ok g0
           \<and> list_all (\<lambda>(body, g). body_ok body \<and> literal_ok g) rest
           \<and> length rest = length (placeholders name)"
proof -
  let ?ps = "scan name"
  have shape: "\<forall>s. Placeholder s \<in> set ?ps \<longrightarrow> (\<exists>body. s = span body \<and> body_ok body)"
    using placeholder_span by blast
  then have "with_placeholders (fst (parts ?ps)) (snd (parts ?ps)) = name"
    by (simp add: parts_text scan_text)
  moreover have "literal_ok (fst (parts ?ps))
         \<and> list_all (\<lambda>(body, g). body_ok body \<and> literal_ok g) (snd (parts ?ps))
         \<and> length (snd (parts ?ps)) = length (spans ?ps)"
    using shape assms by (intro parts_ok) (simp_all add: outside_def outside_wildcards_def)
  ultimately show ?thesis
    by (metis placeholders_def)
qed

text \<open>
  Claim C4, as amended. For a name made of literal text and \<open>k\<close> placeholder spans,
  where the body of each span holds no greater-than sign and no line terminator and the
  literal text holds neither sign and no wildcard token of its own, the pattern is the
  line prefix, the name with the wildcard token in the place of each span and its
  literal text unchanged, and the line suffix; it holds exactly \<open>k\<close> wildcard tokens and
  neither sign. By \<open>name_parts\<close> these are all the names whose text outside the spans
  of the scan is in order, and \<open>k\<close> is the number of those spans.
\<close>

theorem createStepNamePattern_wildcards:
  assumes "literal_ok g0" and "list_all (\<lambda>(body, g). body_ok body \<and> literal_ok g) rest"
  shows "createStepNamePattern (with_placeholders g0 rest)
           = [CHR ''^'', BACKSLASH, CHR ''*'', BACKSLASH, CHR ''s'', CHR ''+'']
             @ with_wildcards g0 rest @ [BACKSLASH, CHR ''s'', CHR ''*'', CHR ''$'']
         \<and> count_wildcards (createStepNamePattern (with_placeholders g0 rest)) = length rest
         \<and> CHR ''<'' \<notin> set (createStepNamePattern (with_placeholders g0 rest))
         \<and> CHR ''>'' \<notin> set (createStepNamePattern (with_placeholders g0 rest))"
proof -
  let ?p = "createStepNamePattern (with_placeholders g0 rest)"
  have scan_ok: "list_all (\<lambda>(body, g). body_ok body \<and> CHR ''<'' \<notin> set g) rest"
    and count_ok: "list_all (\<lambda>(body, g). count_wildcards g = 0) rest"
    and sets: "\<forall>bg \<in> set rest. CHR ''<'' \<notin> set (snd bg) \<and> CHR ''>'' \<notin> set (snd bg)"
    using assms(2) by (auto simp: list_all_iff literal_ok_def)
  from assms(1) have g0: "CHR ''<'' \<notin> set g0" "CHR ''>'' \<notin> set g0" "count_wildcards g0 = 0"
    by (simp_all add: literal_ok_def)
  have eq: "?p = [CHR ''^'', BACKSLASH, CHR ''*'', BACKSLASH, CHR ''s'', CHR ''+'']
             @ with_wildcards g0 rest @ [BACKSLASH, CHR ''s'', CHR ''*'', CHR ''$'']"
    using g0(1) scan_ok by (rule pattern_with_placeholders)
  have "count_wildcards (with_wildcards g0 rest) = length rest"
    using g0(3) count_ok by (simp add: with_wildcards_def count_wildcards_literal count_wildcards_text)
  then have count: "count_wildcards ?p = length rest"
    unfolding eq by (simp add: count_wildcards_append count_wildcards_skip)
  have "CHR ''<'' \<notin> set (with_wildcards g0 rest)" and "CHR ''>'' \<notin> set (with_wildcards g0 rest)"
    using g0 sets set_wildcards_text [of _ rest] by (auto simp: with_wildcards_def)
  then have "CHR ''<'' \<notin> set ?p" and "CHR ''>'' \<notin> set ?p"
    unfolding eq by simp_all
  with eq count show ?thesis by blast
qed

theorem createStepNamePattern_wildcards_witness:
  "with_placeholders ''Add '' [(''a'', '' and ''), (''b'', [])] = ''Add <a> and <b>''
   \<and> createStepNamePattern ''Add <a> and <b>''
       = [CHR ''^'', BACKSLASH, CHR ''*'', BACKSLASH, CHR ''s'', CHR ''+'']
         @ ''Add .+ and .+'' @ [BACKSLASH, CHR ''s'', CHR ''*'', CHR ''$'']
   \<and> count_wildcards (createStepNamePattern ''Add <a> and <b>'') = 2
   \<and> CHR ''<'' \<notin> set (createStepNamePattern ''Add <a> and <b>'')
   \<and> CHR ''>'' \<notin> set (createStepNamePattern ''Add <a> and <b>'')"
proof -
  have literal: "literal_ok ''Add ''"
    by code_simp
  have spans: "list_all (\<lambda>(body, g). body_ok body \<and> literal_ok g)
                 [(''a'', '' and ''), (''b'', [])]"
    by code_simp
  have name: "with_placeholders ''Add '' [(''a'', '' and ''), (''b'', [])] = ''Add <a> and <b>''"
    by code_simp
  have wild: "with_wildcards ''Add '' [(''a'', '' and ''), (''b'', [])] = ''Add .+ and .+''"
    by code_simp
  from createStepNamePattern_wildcards [OF literal spans] name wild
  show ?thesis by simp
qed

text \<open>
  Claim C4, as stated, fails. The name \<^verbatim>\<open><a<b>>\<close> has one placeholder span (the lazy
  match ends at the first greater-than sign) and its pattern keeps the second
  greater-than sign; the name \<^verbatim>\<open>a.+b\<close> has no placeholder span and its pattern holds
  one wildcard token; the name \<^verbatim>\<open>x<y\<close> has no placeholder span and its pattern keeps
  the less-than sign; and the span with a carriage return in its body is not replaced:
  the pattern keeps its less-than sign and holds no wildcard token.
\<close>

theorem createStepNamePattern_wildcards_counterexample:
  "placeholders ''<a<b>>'' = [''<a<b>'']
   \<and> CHR ''>'' \<in> set (createStepNamePattern ''<a<b>>'')
   \<and> placeholders ''a.+b'' = []
   \<and> count_wildcards (createStepNamePattern ''a.+b'') = 1
   \<and> placeholders ''x<y'' = []
   \<and> CHR ''<'' \<in> set (createStepNamePattern ''x<y'')
   \<and> CHR ''<'' \<in> set (createStepNamePattern
                           (with_placeholders [] [(''a'' @ [CRETURN] @ ''b'', [])]))
   \<and> count_wildcards (createStepNamePattern
                         (with_placeholders [] [(''a'' @ [CRETURN] @ ''b'', [])])) = 0"
  by code_simp

section \<open>The pattern at work\<close>

lemma pattern_Add:
  "createStepNamePattern ''Add <a> and <b>''
     = [CHR ''^'', BACKSLASH, CHR ''*'', BACKSLASH, CHR ''s'', CHR ''+'']
       @ ''Add .+ and .+'' @ [BACKSLASH, CHR ''s'', CHR ''*'', CHR ''$'']"
  by code_simp

text \<open>
  Claim C7. The pattern of the name \<^verbatim>\<open>Add <a> and <b>\<close> selects the line
  \<^verbatim>\<open>* Add 3 and 4\<close>; it selects neither \<^verbatim>\<open>Add 3 and 4\<close>, which lacks the leading
  marker, nor \<^verbatim>\<open>* Add 3 and\<close>, which is incomplete.
\<close>

theorem pattern_Add_matches:
  "grep_E_selects (createStepNamePattern ''Add <a> and <b>'') ''* Add 3 and 4'' = Some True
   \<and> grep_E_selects (createStepNamePattern ''Add <a> and <b>'') ''Add 3 and 4'' = Some False
   \<and> grep_E_selects (createStepNamePattern ''Add <a> and <b>'') ''* Add 3 and'' = Some False"
  by code_simp

section \<open>The usage check\<close>

lemma pipefail_zero: "pipefail cs = 0 \<longleftrightarrow> (\<forall>c \<in> set cs. c = 0)"
  by (induction cs) auto

lemma isUnused_value:
  "isUnused G d specs = Inr (exitCode (usage_pipeline G (pattern d) specs) \<noteq> 0)"
  by (simp add: isUnused_def dollar_def)

lemma usage_pipeline_exit:
  "exitCode (usage_pipeline G p specs) = 0 \<longleftrightarrow>
     exitCode (find_exec_cat specs) = 0 \<and> exitCode (G p (stdout (find_exec_cat specs))) = 0"
  by (simp add: usage_pipeline_def Let_def wc_l_def)

lemma isUnused_no_match:
  "exitCode (G (pattern d) (stdout (find_exec_cat specs))) \<noteq> 0 \<Longrightarrow> isUnused G d specs = Inr True"
  by (simp add: isUnused_value usage_pipeline_exit)

text \<open>
  Claim C1, as amended. When the read of the corpus fails (\<^verbatim>\<open>find\<close> exits with a
  non-zero code because \<^verbatim>\<open>cat\<close> could not read a file), the usage check raises no
  error: it catches the failure and answers \<^verbatim>\<open>true\<close>, the value it also gives when
  \<^verbatim>\<open>grep\<close> exits with a non-zero code because no line matches.
\<close>

theorem isUnused_read_failure:
  "exitCode (find_exec_cat specs) \<noteq> 0
     \<or> exitCode (G (pattern d) (stdout (find_exec_cat specs))) \<noteq> 0
   \<Longrightarrow> isUnused G d specs = Inr True"
  by (auto simp: isUnused_value usage_pipeline_exit)

theorem isUnused_read_failure_witness:
  "exitCode (find_exec_cat specs_unreadable) \<noteq> 0
   \<and> isUnused grep_E_fragment login specs_unreadable = Inr True"
proof -
  have "exitCode (find_exec_cat specs_unreadable) \<noteq> 0"
    by (simp add: find_exec_cat_def cat_def specs_unreadable_def)
  then show ?thesis
    using isUnused_read_failure [of specs_unreadable grep_E_fragment login] by simp
qed

text \<open>
  Claim C1, as stated, fails. With one spec file that holds the line \<^verbatim>\<open>* Login\<close> and
  one that cannot be read, the read fails and the check of the declaration \<^verbatim>\<open>Login\<close>
  answers \<^verbatim>\<open>true\<close> without an error: the same answer as on a corpus that can be read
  and holds no matching line, while on the readable file alone the answer is
  \<^verbatim>\<open>false\<close>.
\<close>

theorem isUnused_read_failure_counterexample:
  "exitCode (find_exec_cat specs_unreadable) = 1
   \<and> isUnused grep_E_fragment login specs_unreadable = Inr True
   \<and> isUnused grep_E_fragment login specs_logout = Inr True
   \<and> isUnused grep_E_fragment login specs_login = Inr False"
  by code_simp

text \<open>
  The amended claim is about the usage check alone. The run can still end with an error
  of another read: with a concept file that cannot be read, the pipeline of
  \<open>findConcepts\<close> is rejected and nothing catches it.
\<close>

lemma exec_unreadable_concept_file:
  "exec grep_E_fragment project_unreadable_cpt
     = Inl (ProcessError \<lparr>exitCode = 1, stdout = []\<rparr>)"
  by code_simp

section \<open>Unused steps and their report\<close>

lemma check_marked: "check G specs d = Inr (marked G specs d)"
  by (simp add: check_def marked_def individually_unused_def isUnused_value)

lemma sequence_Inr: "sequence (map (\<lambda>x. Inr (f x)) xs) = Inr (map f xs)"
  by (induction xs) auto

lemma sequence_check: "sequence (map (check G specs) step) = Inr (map (marked G specs) step)"
  by (induction step) (auto simp: check_marked)

lemma unused_marked [simp]: "unused (marked G specs d) = individually_unused G specs d"
  by (simp add: marked_def)

lemma stepName_marked [simp]: "stepName (marked G specs d) = stepName d"
  by (simp add: marked_def)

lemma list_ex_marked:
  "list_ex unused (map (marked G specs) step) = list_ex (individually_unused G specs) step"
  by (induction step) auto

lemma filter_marked:
  "filter unused (map (marked G specs) step)
     = map (marked G specs) (filter (individually_unused G specs) step)"
  by (induction step) auto

lemma filter_groups:
  "filter (list_ex unused) (map (map (marked G specs)) steps)
     = map (map (marked G specs)) (filter (list_ex (individually_unused G specs)) steps)"
  by (induction steps) (auto simp: list_ex_marked)

lemma findUnusedSteps_value:
  "findUnusedSteps G steps specs
     = Inr (map (map (marked G specs)) (filter (list_ex (individually_unused G specs)) steps))"
proof -
  have "sequence (map (\<lambda>step. sequence (map (check G specs) step)) steps)
          = Inr (map (map (marked G specs)) steps)"
    by (induction steps) (auto simp: sequence_check)
  then show ?thesis
    by (simp add: findUnusedSteps_def filter_groups)
qed

lemma printUnusedSteps_marked:
  "printUnusedSteps (map (map (marked G specs)) groups)
     = [''Unused step names:'']
       @ concat (map (\<lambda>step. map (\<lambda>d. ''* '' @ stepName d)
                               (filter (individually_unused G specs) step)) groups)
       @ ['''']"
  by (simp add: printUnusedSteps_def filter_marked comp_def)

text \<open>
  Claim C6. \<open>findUnusedSteps\<close> never fails and collects exactly the groups with at
  least one individually unused member, each member carrying its own flag; for the
  collected groups \<open>printUnusedSteps\<close> prints, between its heading and an empty line,
  exactly the names of the unused members, group by group.
\<close>

theorem findUnusedSteps_reports:
  "findUnusedSteps G steps specs
     = Inr (map (map (marked G specs)) (filter (list_ex (individually_unused G specs)) steps))
   \<and> printUnusedSteps (map (map (marked G specs))
                          (filter (list_ex (individually_unused G specs)) steps))
     = [''Unused step names:'']
       @ concat (map (\<lambda>step. map (\<lambda>d. ''* '' @ stepName d)
                               (filter (individually_unused G specs) step))
                   (filter (list_ex (individually_unused G specs)) steps))
       @ ['''']"
  by (simp only: findUnusedSteps_value printUnusedSteps_marked simp_thms)


section \<open>Listings\<close>

text \<open>
  What \<^verbatim>\<open>trim\<close> and \<^verbatim>\<open>split\<close> make of the output of a command that prints one
  item per line: the items come back, the last one without its trailing white space,
  when no item holds a newline, the first starts with a character that is no white
  space and the last holds such a character. For \<open>findSpecFiles\<close> this gives the
  paths of the directory when they are plain.
\<close>

lemma split_nl_not_Nil [simp]: "split_nl s \<noteq> []"
  by (induction s) (auto split: list.splits)



lemma split_nl_single: "NEWLINE \<notin> set l \<Longrightarrow> split_nl l = [l]"
  by (induction l) auto

lemma split_nl_line: "NEWLINE \<notin> set l \<Longrightarrow> split_nl (l @ NEWLINE # s) = l # split_nl s"
  by (induction l) (auto split: list.splits)

lemma split_nl_joined:
  "\<forall>l \<in> set pre. NEWLINE \<notin> set l \<Longrightarrow> NEWLINE \<notin> set e \<Longrightarrow>
     split_nl (unlines pre @ e) = pre @ [e]"
  by (induction pre) (auto simp: unlines_def split_nl_single split_nl_line)

lemma isWhiteSpace_NEWLINE [simp]: "isWhiteSpace NEWLINE"
  by (simp add: isWhiteSpace_def isspace_def)

lemma set_rtrim: "set (rtrim s) \<subseteq> set s"
  unfolding rtrim_def using set_dropWhileD by fastforce

lemma trim_unlines:
  assumes "\<not> isWhiteSpace (hd (unlines pre @ e))" and "\<exists>c \<in> set e. \<not> isWhiteSpace c"
  shows "trim (unlines (pre @ [e])) = unlines pre @ rtrim e"
proof -
  let ?s = "unlines pre @ e @ [NEWLINE]"
  from assms(2) have ne: "unlines pre @ e \<noteq> []" by auto
  then have "hd ?s = hd (unlines pre @ e)"
    by (metis append.assoc hd_append2)
  with assms(1) ne have front: "dropWhile isWhiteSpace ?s = ?s"
    by (cases ?s) auto
  have "dropWhile isWhiteSpace (rev ?s) = dropWhile isWhiteSpace (rev e @ rev (unlines pre))"
    by simp
  also have "\<dots> = dropWhile isWhiteSpace (rev e) @ rev (unlines pre)"
  proof -
    from assms(2) obtain c where "c \<in> set (rev e)" and "\<not> isWhiteSpace c" by auto
    then show ?thesis by (rule dropWhile_append1)
  qed
  finally have "rev (dropWhile isWhiteSpace (rev ?s)) = unlines pre @ rtrim e"
    by (simp add: rtrim_def)
  with front show ?thesis
    by (simp add: trim_def unlines_def)
qed

lemma split_trim_unlines:
  assumes "\<forall>l \<in> set (pre @ [e]). NEWLINE \<notin> set l"
    and "\<not> isWhiteSpace (hd (unlines pre @ e))" and "\<exists>c \<in> set e. \<not> isWhiteSpace c"
  shows "split_nl (trim (unlines (pre @ [e]))) = pre @ [rtrim e]"
proof -
  have "NEWLINE \<notin> set (rtrim e)"
    using assms(1) set_rtrim [of e] by auto
  with assms show ?thesis
    by (simp add: trim_unlines split_nl_joined)
qed

lemma rtrim_id: "s \<noteq> [] \<Longrightarrow> \<not> isWhiteSpace (last s) \<Longrightarrow> rtrim s = s"
  by (cases s rule: rev_cases) (auto simp: rtrim_def)

lemma hd_unlines:
  "ls \<noteq> [] \<Longrightarrow> hd ls \<noteq> [] \<Longrightarrow> hd (unlines (butlast ls) @ last ls) = hd (hd ls)"
  by (cases ls) (auto simp: unlines_def)

lemma listing_roundtrip:
  assumes "ps \<noteq> []"
    and "\<forall>p \<in> set ps. p \<noteq> [] \<and> NEWLINE \<notin> set p
            \<and> \<not> isWhiteSpace (hd p) \<and> \<not> isWhiteSpace (last p)"
  shows "split_nl (trim (unlines ps)) = ps"
proof -
  from assms(1) have split: "ps = butlast ps @ [last ps]" by simp
  have lastp: "last ps \<in> set ps" and hdp: "hd ps \<in> set ps"
    using assms(1) by simp_all
  have "hd (unlines (butlast ps) @ last ps) = hd (hd ps)"
    using assms hdp by (intro hd_unlines) auto
  then have "\<not> isWhiteSpace (hd (unlines (butlast ps) @ last ps))"
    using assms(2) hdp by simp
  moreover have "\<exists>c \<in> set (last ps). \<not> isWhiteSpace c"
    using assms(2) lastp by (metis last_in_set)
  moreover have "\<forall>l \<in> set (butlast ps @ [last ps]). NEWLINE \<notin> set l"
    using assms(2) split by metis
  ultimately have "split_nl (trim (unlines (butlast ps @ [last ps])))
                     = butlast ps @ [rtrim (last ps)]"
    by (intro split_trim_unlines)
  moreover have "rtrim (last ps) = last ps"
    using assms(2) lastp by (intro rtrim_id) auto
  ultimately show ?thesis
    using split by simp
qed

lemma findSpecFiles_plain:
  assumes "t \<noteq> []"
    and "\<forall>p \<in> set (map fst t). p \<noteq> [] \<and> NEWLINE \<notin> set p
            \<and> \<not> isWhiteSpace (hd p) \<and> \<not> isWhiteSpace (last p)"
  shows "findSpecFiles t = Inr (map fst t)"
proof -
  from assms(1) have "map fst t \<noteq> []" by simp
  then have "split_nl (trim (unlines (map fst t))) = map fst t"
    using assms(2) by (rule listing_roundtrip)
  then show ?thesis
    by (simp add: findSpecFiles_def dollar_def find_type_f_def)
qed

section \<open>The trailing newline\<close>

lemma append_newline_terminated: "s \<noteq> [] \<Longrightarrow> last s = NEWLINE \<Longrightarrow> append_newline s = s"
  by (simp add: append_newline_def tail_c1_def count_newlines_def)

lemma append_newline_empty: "append_newline [] = [NEWLINE]"
  by (simp add: append_newline_def tail_c1_def count_newlines_def)

lemma append_newline_idem: "append_newline (append_newline s) = append_newline s"
  by (simp add: append_newline_def tail_c1_def count_newlines_def)

lemma length_run_command [simp]: "length (run_command c t) = length t"
  by (cases c) (simp_all add: run_AppendNewline_def)

lemma length_fold_run_command [simp]: "length (fold run_command cs t) = length t"
  by (induction cs arbitrary: t) simp_all

lemma run_command_nth:
  "i < length t \<Longrightarrow>
     run_command c t ! i =
       (if c = AppendNewline (fst (t ! i))
        then (fst (t ! i), map_option append_newline (snd (t ! i))) else t ! i)"
  by (cases c) (auto simp: run_AppendNewline_def)

lemma fold_keeps_terminated:
  "i < length t \<Longrightarrow> t ! i = (p, Some s) \<Longrightarrow> s \<noteq> [] \<Longrightarrow> last s = NEWLINE \<Longrightarrow>
     fold run_command cs t ! i = (p, Some s)"
proof (induction cs arbitrary: t)
  case Nil
  then show ?case by simp
next
  case (Cons c cs)
  have "run_command c t ! i = (p, Some s)"
    using Cons.prems by (simp add: run_command_nth append_newline_terminated)
  with Cons.IH [of "run_command c t"] Cons.prems show ?case by simp
qed

lemma fold_fills_empty:
  "i < length t \<Longrightarrow> t ! i = (p, Some []) \<Longrightarrow> AppendNewline p \<in> set cs \<Longrightarrow>
     fold run_command cs t ! i = (p, Some [NEWLINE])"
proof (induction cs arbitrary: t)
  case Nil
  then show ?case by simp
next
  case (Cons c cs)
  show ?case
  proof (cases "c = AppendNewline p")
    case True
    have "run_command c t ! i = (p, Some [NEWLINE])"
      using Cons.prems True
      by (simp add: run_command_nth append_newline_empty del: run_command.simps)
    then have "fold run_command cs (run_command c t) ! i = (p, Some [NEWLINE])"
      using Cons.prems(1) by (intro fold_keeps_terminated) simp_all
    then show ?thesis by simp
  next
    case False
    have "run_command c t ! i = (p, Some [])"
      using Cons.prems False by (simp add: run_command_nth)
    moreover have "AppendNewline p \<in> set cs"
      using Cons.prems(3) False by simp
    ultimately show ?thesis
      using Cons.IH [of "run_command c t"] Cons.prems(1) by simp
  qed
qed

lemma formatted_fold:
  "findSpecFiles t = Inr files \<Longrightarrow> formatted t = fold run_command (map AppendNewline files) t"
  by (simp add: formatted_def formatForStepSearch_def)

lemma findSpecFiles_value:
  "findSpecFiles t = Inr (split_nl (trim (unlines (map fst t))))"
  by (simp add: findSpecFiles_def dollar_def find_type_f_def)

lemma run_AppendNewline_map:
  "run_AppendNewline file (map (\<lambda>f. if fst f \<in> S then (fst f, map_option append_newline (snd f)) else f) t)
     = map (\<lambda>f. if fst f \<in> insert file S then (fst f, map_option append_newline (snd f)) else f) t"
  by (auto simp: run_AppendNewline_def append_newline_idem option.map_comp comp_def
      intro!: map_option_cong)

lemma fold_AppendNewline_map:
  "fold run_command (map AppendNewline files)
       (map (\<lambda>f. if fst f \<in> S then (fst f, map_option append_newline (snd f)) else f) t)
     = map (\<lambda>f. if fst f \<in> S \<union> set files then (fst f, map_option append_newline (snd f)) else f) t"
proof (induction files arbitrary: S)
  case Nil
  then show ?case by simp
next
  case (Cons p ps)
  show ?case
    using Cons.IH [of "insert p S"] by (simp add: run_AppendNewline_map)
qed

lemma formatted_map:
  "formatted t
     = map (\<lambda>f. if fst f \<in> set (split_nl (trim (unlines (map fst t))))
                 then (fst f, map_option append_newline (snd f)) else f) t"
proof -
  have "t = map (\<lambda>f. if fst f \<in> {} then (fst f, map_option append_newline (snd f)) else f) t"
    by simp
  then have "fold run_command (map AppendNewline (split_nl (trim (unlines (map fst t))))) t
     = map (\<lambda>f. if fst f \<in> {} \<union> set (split_nl (trim (unlines (map fst t))))
                 then (fst f, map_option append_newline (snd f)) else f) t"
    using fold_AppendNewline_map [of "split_nl (trim (unlines (map fst t)))" "{}" t] by simp
  then show ?thesis
    by (simp add: formatted_fold [OF findSpecFiles_value])
qed

lemma formatted_paths: "map fst (formatted t) = map fst t"
  by (simp add: formatted_map comp_def if_distrib cong: if_cong)

lemma formatted_idempotent: "formatted (formatted t) = formatted t"
proof -
  let ?L = "set (split_nl (trim (unlines (map fst t))))"
  let ?g = "\<lambda>f. if fst f \<in> ?L then (fst f, map_option append_newline (snd f)) else f"
  have "formatted (formatted t) = map ?g (formatted t)"
    using formatted_map [of "formatted t"] by (simp only: formatted_paths)
  also have "\<dots> = map ?g (map ?g t)"
    by (simp only: formatted_map [of t])
  also have "\<dots> = map ?g t"
    by (auto simp: append_newline_idem option.map_comp comp_def intro!: map_option_cong)
  finally show ?thesis
    by (simp only: formatted_map [of t])
qed

text \<open>
  Claim C9. A file whose content ends with a newline is left as it is: by the command
  itself, and by all the commands of \<open>formatForStepSearch\<close> together, whatever the
  other files of the directory are. Formatting a directory that has been formatted
  changes nothing.
\<close>

theorem formatted_keeps_terminated:
  assumes "i < length t" and "t ! i = (p, Some s)" and "s \<noteq> []" and "last s = NEWLINE"
  shows "append_newline s = s \<and> formatted t ! i = (p, Some s)
         \<and> formatted (formatted t) = formatted t"
proof -
  have "formatted t ! i = (p, Some s)"
    using assms
    by (simp add: formatted_fold [OF findSpecFiles_value] fold_keeps_terminated)
  with assms show ?thesis
    by (simp add: append_newline_terminated formatted_idempotent)
qed

theorem formatted_keeps_terminated_witness:
  "append_newline (''* Logout'' @ [NEWLINE]) = ''* Logout'' @ [NEWLINE]
   \<and> formatted specs_mixed ! 1 = (''p/specs/b.spec'', Some (''* Logout'' @ [NEWLINE]))"
proof -
  have "(1::nat) < length specs_mixed"
    by (simp add: specs_mixed_def)
  moreover have "specs_mixed ! 1 = (''p/specs/b.spec'', Some (''* Logout'' @ [NEWLINE]))"
    by (simp add: specs_mixed_def)
  ultimately show ?thesis
    using formatted_keeps_terminated
      [of 1 specs_mixed "''p/specs/b.spec''" "''* Logout'' @ [NEWLINE]"]
    by simp
qed

text \<open>
  Claim C10. An empty file holds no last byte, so the count of newlines in it is 0
  and the command appends: the content becomes the single newline. In the directory,
  the empty file that \<open>findSpecFiles\<close> lists consists of exactly one newline once
  the commands of \<open>formatForStepSearch\<close> have exited.
\<close>

theorem formatted_fills_empty:
  assumes "findSpecFiles t = Inr files" and "p \<in> set files"
    and "i < length t" and "t ! i = (p, Some [])"
  shows "count_newlines (tail_c1 []) = 0 \<and> append_newline [] = [NEWLINE]
         \<and> formatted t ! i = (p, Some [NEWLINE])"
  using assms
  by (simp add: append_newline_empty formatted_fold fold_fills_empty tail_c1_def
      count_newlines_def)

theorem formatted_fills_empty_witness:
  "findSpecFiles specs_mixed = Inr [''p/specs/a.spec'', ''p/specs/b.spec'', ''p/specs/c.spec'']
   \<and> specs_mixed ! 2 = (''p/specs/c.spec'', Some [])
   \<and> formatted specs_mixed ! 2 = (''p/specs/c.spec'', Some [NEWLINE])"
proof -
  have files: "findSpecFiles specs_mixed
                 = Inr [''p/specs/a.spec'', ''p/specs/b.spec'', ''p/specs/c.spec'']"
    by code_simp
  have len: "(2::nat) < length specs_mixed"
    by (simp add: specs_mixed_def)
  have empty: "specs_mixed ! 2 = (''p/specs/c.spec'', Some [])"
    by (simp add: specs_mixed_def)
  have listed: "''p/specs/c.spec'' \<in> set [''p/specs/a.spec'', ''p/specs/b.spec'', ''p/specs/c.spec'']"
    by simp
  have "formatted specs_mixed ! 2 = (''p/specs/c.spec'', Some [NEWLINE])"
    using formatted_fills_empty [OF files listed len empty] by simp
  with files empty show ?thesis by simp
qed

text \<open>
  In a directory with plain paths every file is listed, so every empty file that can be
  read ends as one newline.
\<close>

lemma formatted_fills_empty_plain:
  assumes "\<forall>p \<in> set (map fst t). p \<noteq> [] \<and> NEWLINE \<notin> set p
            \<and> \<not> isWhiteSpace (hd p) \<and> \<not> isWhiteSpace (last p)"
    and "i < length t" and "t ! i = (p, Some [])"
  shows "formatted t ! i = (p, Some [NEWLINE])"
proof -
  from assms(2) have "t \<noteq> []" by auto
  then have files: "findSpecFiles t = Inr (map fst t)"
    using assms(1) by (rule findSpecFiles_plain)
  have "t ! i \<in> set t"
    using assms(2) by simp
  then have "AppendNewline (fst (t ! i)) \<in> set (map AppendNewline (map fst t))"
    by (simp only: set_map) (intro imageI)
  then have "AppendNewline p \<in> set (map AppendNewline (map fst t))"
    by (simp only: assms(3) fst_conv)
  then show ?thesis
    using assms(2,3) by (simp only: formatted_fold [OF files] fold_fills_empty)
qed

section \<open>Step extraction without sources\<close>

lemma steps_pipeline_no_sources:
  "named ''kt'' src = [] \<Longrightarrow> steps_pipeline src = \<lparr>exitCode = 1, stdout = []\<rparr>"
  by (simp add: steps_pipeline_def find_name_def xargs_cat_def cat_def unlines_def
      awk_step_ranges_def awk_join_continued_def lines_def grep_o_quoted_def
      List.map_filter_def Let_def)

lemma findSteps_no_sources:
  "named ''kt'' src = [] \<Longrightarrow> findSteps src = Inl (ProcessError \<lparr>exitCode = 1, stdout = []\<rparr>)"
  by (simp add: findSteps_def steps_pipeline_no_sources dollar_def)

lemma formatForStepSearch_value:
  "formatForStepSearch t
     = Inr (map AppendNewline (split_nl (trim (unlines (map fst t)))), [''Format done.'' @ [NEWLINE]])"
  by (simp add: formatForStepSearch_def findSpecFiles_value)

lemma exec_no_sources:
  "named ''kt'' (srcFiles w) = [] \<Longrightarrow>
     exec G w = Inl (ProcessError \<lparr>exitCode = 1, stdout = []\<rparr>)"
  by (simp add: exec_def formatForStepSearch_value findSteps_no_sources)

text \<open>
  Claim C3 fails on the code. In a project whose source directory holds no file with a
  name ending in \<^verbatim>\<open>kt\<close>, the last \<^verbatim>\<open>grep\<close> of the step pipeline selects nothing and
  exits with 1; the command is rejected, \<open>findSteps\<close> throws instead of answering the
  empty list, and the run ends with that error.
\<close>

theorem findSteps_without_sources:
  "named ''kt'' (srcFiles project_without_sources) = []
   \<and> findSteps (srcFiles project_without_sources)
       = Inl (ProcessError \<lparr>exitCode = 1, stdout = []\<rparr>)
   \<and> exec grep_E_fragment project_without_sources
       = Inl (ProcessError \<lparr>exitCode = 1, stdout = []\<rparr>)"
proof -
  have "named ''kt'' (srcFiles project_without_sources) = []"
    by code_simp
  then show ?thesis
    by (simp add: findSteps_no_sources exec_no_sources)
qed

section \<open>A project without concept files\<close>

lemma findConcepts_no_files: "named ''.cpt'' t = [] \<Longrightarrow> findConcepts t = Inr []"
  by (simp add: findConcepts_def find_name_def dollar_def unlines_def trim_def)

lemma exec_no_concepts:
  assumes "named ''.cpt'' (specsFiles w) = []" and "findSteps (srcFiles w) = Inr steps"
  shows "exec G w
           = Inr (printTarget w @ [''Format done.'' @ [NEWLINE]]
                  @ printUnusedSteps (flagged G (specsFiles w) steps)
                  @ [''Unused concepts:'', []]
                  @ printSummary steps (flagged G (specsFiles w) steps) [] [])"
  using assms
  by (simp add: exec_def formatForStepSearch_value findUnusedSteps_value findConcepts_no_files
      flagged_def printUnusedConcepts_def)

lemma show_nat_0: "show_nat 0 = ''0''"
  by code_simp

lemma foldl_count:
  "foldl (\<lambda>sum x. sum + f x) (a::nat) xs = a + sum_list (map f xs)"
  by (induction xs arbitrary: a) simp_all

lemma flagged_member:
  "g \<in> set (flagged G specs steps) \<Longrightarrow> filter unused g \<noteq> []"
  by (auto simp: flagged_def filter_marked list_ex_iff filter_empty_conv)

lemma flagged_count:
  "0 < foldl (\<lambda>sum step. sum + length (filter unused step)) 0 (flagged G specs steps)
     \<longleftrightarrow> flagged G specs steps \<noteq> []"
proof (cases "flagged G specs steps")
  case Nil
  then show ?thesis by simp
next
  case (Cons g gs)
  then have "filter unused g \<noteq> []"
    using flagged_member [of g G specs steps] by simp
  with Cons show ?thesis by (simp add: foldl_count)
qed

lemma printSummary_no_concepts:
  "printSummary steps (flagged G specs steps) [] []
     = (if flagged G specs steps = [] then [separator, ''ALL CLEAN!'', separator]
        else [separator,
              ''Unused steps: '' @ show_nat (length (flagged G specs steps)) @ '' / ''
                @ show_nat (length steps),
              ''Unused step names: ''
                @ show_nat (foldl (\<lambda>sum step. sum + length (filter unused step)) 0
                              (flagged G specs steps))
                @ '' / '' @ show_nat (foldl (\<lambda>sum step. sum + length step) 0 steps),
              ''Unused concepts: 0 / 0'',
              separator])"
  using flagged_count [of G specs steps]
  by (simp add: printSummary_def Let_def show_nat_0)

text \<open>
  Claim C5, as amended. With no concept file in the specs directory \<open>findConcepts\<close>
  answers the empty list; when step extraction has succeeded the run ends without an
  error; and its summary is the single line \<^verbatim>\<open>ALL CLEAN!\<close> when no step group is
  flagged, and the three counts, ending with \<^verbatim>\<open>Unused concepts: 0 / 0\<close>, when one
  is.
\<close>

theorem no_concept_files:
  assumes "named ''.cpt'' (specsFiles w) = []" and "findSteps (srcFiles w) = Inr steps"
  shows "findConcepts (specsFiles w) = Inr []
         \<and> exec G w
             = Inr (printTarget w @ [''Format done.'' @ [NEWLINE]]
                    @ printUnusedSteps (flagged G (specsFiles w) steps)
                    @ [''Unused concepts:'', []]
                    @ printSummary steps (flagged G (specsFiles w) steps) [] [])
         \<and> printSummary steps (flagged G (specsFiles w) steps) [] []
             = (if flagged G (specsFiles w) steps = []
                then [separator, ''ALL CLEAN!'', separator]
                else [separator,
                      ''Unused steps: '' @ show_nat (length (flagged G (specsFiles w) steps))
                        @ '' / '' @ show_nat (length steps),
                      ''Unused step names: ''
                        @ show_nat (foldl (\<lambda>sum step. sum + length (filter unused step)) 0
                                      (flagged G (specsFiles w) steps))
                        @ '' / '' @ show_nat (foldl (\<lambda>sum step. sum + length step) 0 steps),
                      ''Unused concepts: 0 / 0'',
                      separator])"
  using assms
  by (simp only: findConcepts_no_files exec_no_concepts printSummary_no_concepts simp_thms)

theorem no_concept_files_witness:
  "named ''.cpt'' (specsFiles project_unused) = []
   \<and> findConcepts (specsFiles project_unused) = Inr []
   \<and> exec grep_E_fragment project_unused
       = Inr (printTarget project_unused
              @ [''Format done.'' @ [NEWLINE],
                 ''Unused step names:'', ''* Logout'', [],
                 ''Unused concepts:'', [],
                 separator,
                 ''Unused steps: 1 / 2'',
                 ''Unused step names: 1 / 2'',
                 ''Unused concepts: 0 / 0'',
                 separator])"
proof -
  have none: "named ''.cpt'' (specsFiles project_unused) = []"
    by code_simp
  have steps: "findSteps (srcFiles project_unused)
                 = Inr [createDefinitions [''Login''], createDefinitions [''Logout'']]"
    by code_simp
  have out: "printUnusedSteps (flagged grep_E_fragment (specsFiles project_unused)
                 [createDefinitions [''Login''], createDefinitions [''Logout'']])
               = [''Unused step names:'', ''* Logout'', []]"
    by code_simp
  have summary: "printSummary [createDefinitions [''Login''], createDefinitions [''Logout'']]
                   (flagged grep_E_fragment (specsFiles project_unused)
                      [createDefinitions [''Login''], createDefinitions [''Logout'']]) [] []
                 = [separator, ''Unused steps: 1 / 2'', ''Unused step names: 1 / 2'',
                    ''Unused concepts: 0 / 0'', separator]"
    by code_simp
  from no_concept_files [OF none steps, of grep_E_fragment] none out summary
  show ?thesis by simp
qed

text \<open>
  Claim C5, as stated, fails. The project declares the step \<^verbatim>\<open>Login\<close>, its spec file
  uses it, and there is no concept file: the run ends without an error and the summary
  is \<^verbatim>\<open>ALL CLEAN!\<close>; no line reports 0 unused concepts out of 0.
\<close>

theorem no_concept_files_counterexample:
  "named ''.cpt'' (specsFiles project_clean) = []
   \<and> exec grep_E_fragment project_clean
       = Inr (printTarget project_clean
              @ [''Format done.'' @ [NEWLINE],
                 ''Unused step names:'', [],
                 ''Unused concepts:'', [],
                 separator, ''ALL CLEAN!'', separator])"
  by code_simp

section \<open>The arguments of \<^verbatim>\<open>xargs\<close>\<close>


lemma isspace_NEWLINE [simp]: "isspace NEWLINE"
  by (simp add: isspace_def)








text \<open>
  A path with a blank is cut in two, \<^verbatim>\<open>cat\<close> finds neither part, and the pipeline of
  \<open>findConcepts\<close> is rejected.
\<close>

lemma findConcepts_blank_path:
  "findConcepts [(''p/specs/check out.cpt'', Some (''# Checkout Flow'' @ [NEWLINE]))]
     = Inl (ProcessError \<lparr>exitCode = 1, stdout = []\<rparr>)"
  by code_simp

section \<open>A concept header\<close>











section \<open>Usage checks and pending appends\<close>

text \<open>
  Whenever step extraction yields a declaration, there is a run in which the first usage
  check is about to start while every command started by \<open>formatForStepSearch\<close> is
  still running.
\<close>

lemma run_append:
  "run (es @ fs) cfg = (case run es cfg of None \<Rightarrow> None | Some cfg' \<Rightarrow> run fs cfg')"
  by (induction es arbitrary: cfg) (auto split: option.splits)

lemma run_starts:
  "run (replicate (length cs) Script) (map Start cs @ todo, running) = Some (todo, rev cs @ running)"
  by (induction cs arbitrary: running) simp_all

lemma started_appends:
  "formatForStepSearch t = Inr (started, out) \<Longrightarrow> \<forall>c \<in> set started. is_append c"
  by (auto simp: formatForStepSearch_def split: sum.splits)

lemma started_not_Nil:
  "formatForStepSearch t = Inr (started, out) \<Longrightarrow> started \<noteq> []"
  by (auto simp: formatForStepSearch_def findSpecFiles_def split: sum.splits)

lemma check_may_start_during_any_append:
  assumes format: "formatForStepSearch (specsFiles w) = Inr (started, out)"
    and steps: "findSteps (srcFiles w) = Inr steps" and decl: "concat steps = d # ds"
  shows "\<exists>todo. run ([Script, Exit FindSpecFiles, Script] @ replicate (length started) Script
                     @ [Script, Script, Exit StepsPipeline, Script])
                  (exec_actions w, [])
               = Some (Start (UsageCheck (pattern d)) # todo, rev started)
           \<and> check_starts_during_append (Start (UsageCheck (pattern d)) # todo, rev started)"
proof -
  let ?rest = "[Await []] @ [Start StepsPipeline, Await [StepsPipeline]]
                 @ map Start (usage_checks (concat steps))
                 @ [Await (usage_checks (concat steps))] @ concept_actions (specsFiles w)"
  let ?todo = "map Start (usage_checks ds) @ [Await (usage_checks (concat steps))]
                 @ concept_actions (specsFiles w)"
  have appends: "\<forall>c \<in> set started. is_append c"
    using format by (rule started_appends)
  then have no_pipeline: "StepsPipeline \<notin> set started"
    by auto
  have actions: "exec_actions w
                   = [Start FindSpecFiles, Await [FindSpecFiles]] @ map Start started @ ?rest"
    by (simp add: exec_actions_def format steps)
  have "run [Script, Exit FindSpecFiles, Script] (exec_actions w, [])
          = Some (map Start started @ ?rest, [])"
    by (simp add: actions)
  moreover have "run (replicate (length started) Script) (map Start started @ ?rest, [])
                   = Some (?rest, rev started)"
    using run_starts [of started ?rest "[]"] by simp
  moreover have "run [Script, Script, Exit StepsPipeline, Script] (?rest, rev started)
                   = Some (Start (UsageCheck (pattern d)) # ?todo, rev started)"
    using no_pipeline by (simp add: decl usage_checks_def)
  ultimately have "run ([Script, Exit FindSpecFiles, Script] @ replicate (length started) Script
                     @ [Script, Script, Exit StepsPipeline, Script])
                  (exec_actions w, [])
               = Some (Start (UsageCheck (pattern d)) # ?todo, rev started)"
    by (simp only: run_append option.case)
  moreover have "check_starts_during_append (Start (UsageCheck (pattern d)) # ?todo, rev started)"
    using appends started_not_Nil [OF format]
    by (cases started) (auto simp: list_ex_iff)
  ultimately show ?thesis by blast
qed

text \<open>
  Claim C2 fails on the code. In the project with one spec file and one step, the
  script can reach the start of the usage check while the command that appends the
  newline to the spec file is still running: the listing exits, the append is started
  and not awaited, the step pipeline is started and exits, and the next action of the
  script is the start of the check.
\<close>

theorem check_may_start_during_append:
  "run [Script, Exit FindSpecFiles, Script, Script, Script, Script, Exit StepsPipeline, Script]
       (exec_actions project_clean, [])
     = Some ([Start (UsageCheck (createStepNamePattern ''Login'')),
              Await [UsageCheck (createStepNamePattern ''Login'')],
              Start FindConceptFiles, Await [FindConceptFiles]],
             [AppendNewline ''p/specs/a.spec''])
   \<and> check_starts_during_append
         ([Start (UsageCheck (createStepNamePattern ''Login'')),
           Await [UsageCheck (createStepNamePattern ''Login'')],
           Start FindConceptFiles, Await [FindConceptFiles]],
          [AppendNewline ''p/specs/a.spec''])"
  by code_simp

end
